theory Spec2Isabelle
  imports Main "HOL-Library.Sublist" "HOL-Library.Multiset"
begin

section \<open>The diligent agent adapter (diligent\_tbench/agent.py)\<close>

text \<open>
  A shallow embedding of class \<open>DiligentAgent\<close>. What the class reads from outside
  (the process environment, the file system, the output of git, the lines of the session
  logs, the JSON decoder, floating-point arithmetic) is a parameter of the function that
  reads it, and every exception of those that the source does not catch is an outcome of
  the model. Python strings are \<open>string\<close>, with the 8-bit characters of HOL.
\<close>

subsection \<open>Strings\<close>

definition py_isspace :: "char \<Rightarrow> bool" where
  \<comment> \<open>\<open>str.isspace\<close> on the code points below 256\<close>
  "py_isspace c = (of_char c \<in> {9, 10, 11, 12, 13, 28, 29, 30, 31, 32, 133, 160 :: nat})"

definition strip :: "string \<Rightarrow> string" where
  \<comment> \<open>\<open>s.strip()\<close>\<close>
  "strip s = rev (dropWhile py_isspace (rev (dropWhile py_isspace s)))"

subsection \<open>Binary resolver\<close>

text \<open>
  \<open>os.environ\<close> is a map from names to values. A \<open>pathlib.Path\<close> is kept as the
  expression that built it (\<open>Path s\<close>, \<open>p / name\<close>); \<open>exists\<close> is the file system's
  answer for it: \<open>Inr\<close> of a bool, or \<open>Inl\<close> of the name of the exception it raises
  (an \<open>OSError\<close> for a name that is too long, for one). The call of
  \<open>git rev-parse --show-toplevel\<close> gives its output, or raises one of the two
  exceptions the source catches, or raises any other exception (\<open>GitRaised\<close>, with its
  name: \<open>PermissionError\<close>, \<open>UnicodeDecodeError\<close>). An exception that no
  \<open>except\<close> clause of the source catches leaves the function as \<open>Uncaught\<close>.
\<close>

type_synonym environ = "string \<rightharpoonup> string"

datatype path = Path string | Slash path string

datatype error =
    FileNotFoundError string
  | AttributeError
  | TypeError
  | OverflowError
  | Uncaught string

datatype git_result = Output string | CalledProcessError | GitNotFound | GitRaised string

definition caught :: "string \<Rightarrow> bool" where
  \<comment> \<open>\<open>except (subprocess.CalledProcessError, FileNotFoundError)\<close>, by name\<close>
  "caught x = (x = ''CalledProcessError'' \<or> x = ''FileNotFoundError'')"

definition override_missing_msg :: "string \<Rightarrow> string" where
  "override_missing_msg env_path = ''DILIGENT_BINARY_PATH='' @ env_path @ '' does not exist''"

definition cannot_find_msg :: string where
  "cannot_find_msg =
     ''Cannot find diligent-linux-x64 binary. '' @
     ''Either set DILIGENT_BINARY_PATH or run '' @ [CHR 0x27] @ ''bun run build:linux-x64'' @
     [CHR 0x27] @ '' first.''"

definition candidate :: "string \<Rightarrow> path" where
  "candidate out = Slash (Slash (Path (strip out)) ''dist'') ''diligent-linux-x64''"

definition auto_detect :: "(path \<Rightarrow> string + bool) \<Rightarrow> git_result \<Rightarrow> error + path" where
  \<comment> \<open>lines 46 to 61: the search under the git repository root\<close>
  "auto_detect exists git =
     (case git of
        Output out \<Rightarrow>
          (case exists (candidate out) of
             Inr found \<Rightarrow>
               if found then Inr (candidate out)
               else Inl (FileNotFoundError cannot_find_msg)
           | Inl x \<Rightarrow>
               if caught x then Inl (FileNotFoundError cannot_find_msg)
               else Inl (Uncaught x))
      | CalledProcessError \<Rightarrow> Inl (FileNotFoundError cannot_find_msg)
      | GitNotFound \<Rightarrow> Inl (FileNotFoundError cannot_find_msg)
      | GitRaised x \<Rightarrow>
          if caught x then Inl (FileNotFoundError cannot_find_msg)
          else Inl (Uncaught x))"

definition nothing_exists :: "path \<Rightarrow> string + bool" where
  \<comment> \<open>a file system in which no path exists\<close>
  "nothing_exists q = Inr False"

definition resolve_binary_path ::
  "environ \<Rightarrow> (path \<Rightarrow> string + bool) \<Rightarrow> git_result \<Rightarrow> error + path" where
  \<comment> \<open>\<open>_resolve_binary_path\<close>; \<open>if env_path:\<close> is false for None and for the empty string\<close>
  "resolve_binary_path environ exists git =
     (case environ ''DILIGENT_BINARY_PATH'' of
        None \<Rightarrow> auto_detect exists git
      | Some env_path \<Rightarrow>
          if env_path \<noteq> [] then
            (case exists (Path env_path) of
               Inr found \<Rightarrow>
                 if found then Inr (Path env_path)
                 else Inl (FileNotFoundError (override_missing_msg env_path))
             | Inl x \<Rightarrow> Inl (Uncaught x))
          else auto_detect exists git)"

subsection \<open>Invocation builder\<close>

text \<open>
  \<open>shlex.quote\<close> of the Python library: the empty string becomes two single quotes, a
  string of safe characters only (\<open>[A-Za-z0-9_@%+=:,./-]\<close>) is returned as it is, any
  other string is put between single quotes, each single quote of it replaced by the five
  characters quote, double quote, quote, double quote, quote.
\<close>

definition squote :: char where "squote = CHR 0x27"
definition dquote :: char where "dquote = CHR 0x22"
definition backslash :: char where "backslash = CHR 0x5C"

definition safe_char :: "char \<Rightarrow> bool" where
  "safe_char c =
     (c \<in> set ''abcdefghijklmnopqrstuvwxyzABCDEFGHIJKLMNOPQRSTUVWXYZ0123456789_@%+=:,./-'')"

definition replace_squote :: "string \<Rightarrow> string" where
  "replace_squote s =
     concat (map (\<lambda>c. if c = squote then [squote, dquote, squote, dquote, squote] else [c]) s)"

definition quote :: "string \<Rightarrow> string" where
  "quote s =
     (if s = [] then [squote, squote]
      else if list_all safe_char s then s
      else [squote] @ replace_squote s @ [squote])"

text \<open>
  The agent: the configured model name (\<open>None\<close> when there is none) and the extra
  environment given to the constructor. An \<open>ExecInput\<close> has a command, an optional
  environment and an optional timeout.
\<close>

record agent =
  model_name :: "string option"
  extra_env :: environ

record exec_input =
  command :: string
  env :: "environ option"
  timeout_sec :: "int option"

definition forward_keys :: "environ \<Rightarrow> string list \<Rightarrow> environ \<Rightarrow> environ" where
  \<comment> \<open>lines 69 to 71\<close>
  "forward_keys environ keys e =
     fold (\<lambda>key e. case environ key of Some v \<Rightarrow> e(key \<mapsto> v) | None \<Rightarrow> e) keys e"

definition after_first_slash :: "string \<Rightarrow> string" where
  \<comment> \<open>\<open>model_id.split("/", 1)[1]\<close>, called only when the string has a slash\<close>
  "after_first_slash s = tl (dropWhile (\<lambda>c. c \<noteq> CHR ''/'') s)"

definition model_id :: "string \<Rightarrow> string" where
  \<comment> \<open>lines 76 to 78\<close>
  "model_id name = (if CHR ''/'' \<in> set name then after_first_slash name else name)"

definition forward_model :: "string option \<Rightarrow> environ \<Rightarrow> environ" where
  \<comment> \<open>lines 74 to 79; \<open>if self.model_name:\<close> is false for None and for the empty string\<close>
  "forward_model name e =
     (case name of
        None \<Rightarrow> e
      | Some n \<Rightarrow> if n \<noteq> [] then e(''DILIGENT_MODEL'' \<mapsto> model_id n) else e)"

definition env_before_extra :: "agent \<Rightarrow> environ \<Rightarrow> environ" where
  \<comment> \<open>the dictionary \<open>env\<close> after line 79\<close>
  "env_before_extra a environ =
     forward_model (model_name a)
       (forward_keys environ [''ANTHROPIC_API_KEY'', ''OPENAI_API_KEY''] Map.empty)"

definition run_env :: "agent \<Rightarrow> environ \<Rightarrow> environ" where
  \<comment> \<open>the dictionary \<open>env\<close> after \<open>env.update(self._extra_env)\<close>\<close>
  "run_env a environ = env_before_extra a environ ++ extra_env a"

definition collect_command :: "string \<Rightarrow> string" where
  "collect_command output_dir =
     ''mkdir -p '' @ output_dir @ ''/sessions && find / -path '' @ [squote] @
     ''*/.diligent/sessions/*.jsonl'' @ [squote] @ '' -exec cp {} '' @ output_dir @
     ''/sessions/ '' @ [backslash] @ ''; 2>/dev/null; true''"

definition create_run_agent_commands ::
  "agent \<Rightarrow> environ \<Rightarrow> string \<Rightarrow> string \<Rightarrow> exec_input list" where
  \<comment> \<open>\<open>output_dir\<close> is \<open>EnvironmentPaths.agent_dir\<close>\<close>
  "create_run_agent_commands a environ output_dir instruction =
     [\<lparr>command = ''/installed-agent/diligent --prompt '' @ quote instruction,
        env = Some (run_env a environ),
        timeout_sec = Some 600\<rparr>,
      \<lparr>command = collect_command output_dir,
        env = None,
        timeout_sec = Some 30\<rparr>]"

text \<open>
  The shell-argument tokenizer is \<open>shlex.split\<close> of the Python library: \<open>shlex\<close> in
  POSIX mode with \<open>whitespace_split\<close>, no comment characters and no punctuation
  characters. Its \<open>read_token\<close> is a state machine over the characters read: between
  tokens (\<open>Blank\<close>, the state \<open>' '\<close>), in a word (\<open>Word\<close>, the state \<open>'a'\<close>),
  inside quotes, and after a backslash (\<open>Escape\<close>, with the quote it was met in, if any).
  \<open>quoted\<close> and \<open>token\<close> are its two variables. A token is given out when it is not
  empty or was quoted.
\<close>

datatype lex_state = Blank | Word | Quote char | Escape "char option"

datatype lex_error = NoClosingQuotation | NoEscapedCharacter

definition shlex_whitespace :: "char \<Rightarrow> bool" where
  "shlex_whitespace c = (c \<in> {CHR '' '', CHR 0x09, CHR 0x0D, CHR 0x0A})"

definition shlex_quotes :: "char \<Rightarrow> bool" where
  "shlex_quotes c = (c = squote \<or> c = dquote)"

definition emit :: "bool \<Rightarrow> string \<Rightarrow> lex_error + string list \<Rightarrow> lex_error + string list" where
  "emit quoted token rest =
     (if token \<noteq> [] \<or> quoted then map_sum id (Cons token) rest else rest)"

fun read_tokens :: "lex_state \<Rightarrow> bool \<Rightarrow> string \<Rightarrow> string \<Rightarrow> lex_error + string list" where
  "read_tokens Blank quoted token [] = Inr []"
| "read_tokens Word quoted token [] = emit quoted token (Inr [])"
| "read_tokens (Quote q) quoted token [] = Inl NoClosingQuotation"
| "read_tokens (Escape es) quoted token [] = Inl NoEscapedCharacter"
| "read_tokens Blank quoted token (c # cs) =
     (if shlex_whitespace c then emit quoted token (read_tokens Blank False [] cs)
      else if c = backslash then read_tokens (Escape None) quoted token cs
      else if shlex_quotes c then read_tokens (Quote c) quoted token cs
      else read_tokens Word quoted [c] cs)"
| "read_tokens Word quoted token (c # cs) =
     (if shlex_whitespace c then emit quoted token (read_tokens Blank False [] cs)
      else if shlex_quotes c then read_tokens (Quote c) quoted token cs
      else if c = backslash then read_tokens (Escape None) quoted token cs
      else read_tokens Word quoted (token @ [c]) cs)"
| "read_tokens (Quote q) quoted token (c # cs) =
     (if c = q then read_tokens Word True token cs
      else if c = backslash \<and> q = dquote then read_tokens (Escape (Some q)) True token cs
      else read_tokens (Quote q) True (token @ [c]) cs)"
| "read_tokens (Escape es) quoted token (c # cs) =
     (case es of
        None \<Rightarrow> read_tokens Word quoted (token @ [c]) cs
      | Some q \<Rightarrow>
          read_tokens (Quote q) quoted
            ((if c \<noteq> backslash \<and> c \<noteq> q then token @ [backslash] else token) @ [c]) cs)"

definition shlex_split :: "string \<Rightarrow> lex_error + string list" where
  "shlex_split s = read_tokens Blank False [] s"

subsection \<open>Usage aggregator\<close>

text \<open>
  A Python number is an int or a float. Floating point is a parameter: the type \<open>'f\<close>
  of floats with the three operations the source uses on them, \<open>x + y\<close>, the
  conversion \<open>float(i)\<close> of an int (\<open>None\<close> where Python raises
  \<open>OverflowError\<close>, the int being too large) and the test \<open>x > 0\<close>.
\<close>

datatype 'f number = PInt int | PFloat 'f

record 'f float_ops =
  float_add :: "'f \<Rightarrow> 'f \<Rightarrow> 'f"
  float_of_int :: "int \<Rightarrow> 'f option"
  float_positive :: "'f \<Rightarrow> bool"

fun py_add :: "'f float_ops \<Rightarrow> 'f number \<Rightarrow> 'f number \<Rightarrow> error + 'f number" where
  \<comment> \<open>\<open>a + b\<close> on numbers: an int is converted when the other operand is a float\<close>
  "py_add ops (PInt a) (PInt b) = Inr (PInt (a + b))"
| "py_add ops (PInt a) (PFloat y) =
     (case float_of_int ops a of
        None \<Rightarrow> Inl OverflowError
      | Some x \<Rightarrow> Inr (PFloat (float_add ops x y)))"
| "py_add ops (PFloat x) (PInt b) =
     (case float_of_int ops b of
        None \<Rightarrow> Inl OverflowError
      | Some y \<Rightarrow> Inr (PFloat (float_add ops x y)))"
| "py_add ops (PFloat x) (PFloat y) = Inr (PFloat (float_add ops x y))"

fun gt_zero :: "'f float_ops \<Rightarrow> 'f number \<Rightarrow> bool" where
  \<comment> \<open>\<open>n > 0\<close>\<close>
  "gt_zero ops (PInt a) = (0 < a)"
| "gt_zero ops (PFloat x) = float_positive ops x"

text \<open>
  A decoded JSON value, as \<open>json.loads\<close> returns it: \<open>None\<close>, a bool, an int, a float,
  a string, a list or a dictionary. The decoder is a parameter \<open>loads\<close> of the
  aggregation, with three outcomes: the decoded value, the \<open>JSONDecodeError\<close> that
  the source catches, and any other exception, by name (\<open>RecursionError\<close> on deep
  nesting, \<open>ValueError\<close> on an integer of too many digits), which it does not catch.
  \<open>AttributeError\<close> is \<open>.get\<close> on a value that is no dictionary, \<open>TypeError\<close> is
  \<open>+=\<close> with a value that is no number.
\<close>

datatype 'f json =
    JNull
  | JBool bool
  | JInt int
  | JFloat 'f
  | JStr string
  | JArr "'f json list"
  | JObj "(string \<times> 'f json) list"

datatype 'f decoded = Decoded "'f json" | JSONDecodeError | DecoderRaised string

definition and_then :: "'e + 'a \<Rightarrow> ('a \<Rightarrow> 'e + 'b) \<Rightarrow> 'e + 'b" where
  "and_then r f = (case r of Inl e \<Rightarrow> Inl e | Inr x \<Rightarrow> f x)"

fun dict_get :: "'f json \<Rightarrow> string \<Rightarrow> 'f json \<Rightarrow> error + 'f json" where
  \<comment> \<open>\<open>d.get(key, default)\<close>\<close>
  "dict_get (JObj kvs) key dflt = Inr (case map_of kvs key of None \<Rightarrow> dflt | Some v \<Rightarrow> v)"
| "dict_get _ key dflt = Inl AttributeError"

fun add_tokens :: "'f float_ops \<Rightarrow> 'f number \<Rightarrow> 'f json \<Rightarrow> error + 'f number" where
  \<comment> \<open>\<open>n += v\<close> for a number \<open>n\<close>; a bool counts as the int 0 or 1\<close>
  "add_tokens ops n (JInt v) = py_add ops n (PInt v)"
| "add_tokens ops n (JBool b) = py_add ops n (PInt (if b then 1 else 0))"
| "add_tokens ops n (JFloat x) = py_add ops n (PFloat x)"
| "add_tokens ops n _ = Inl TypeError"

record 'f totals =
  total_input :: "'f number"
  total_output :: "'f number"
  total_cache :: "'f number"

definition zero_totals :: "'f totals" where
  "zero_totals = \<lparr>total_input = PInt 0, total_output = PInt 0, total_cache = PInt 0\<rparr>"

definition add_usage :: "'f float_ops \<Rightarrow> 'f totals \<Rightarrow> 'f json \<Rightarrow> error + 'f totals" where
  \<comment> \<open>lines 128 to 131\<close>
  "add_usage ops t usage =
     and_then (dict_get usage ''inputTokens'' (JInt 0)) (\<lambda>v1.
     and_then (add_tokens ops (total_input t) v1) (\<lambda>ti.
     and_then (dict_get usage ''outputTokens'' (JInt 0)) (\<lambda>v2.
     and_then (add_tokens ops (total_output t) v2) (\<lambda>to.
     and_then (dict_get usage ''cacheReadTokens'' (JInt 0)) (\<lambda>v3.
     and_then (add_tokens ops (total_cache t) v3) (\<lambda>tc.
     and_then (dict_get usage ''cacheWriteTokens'' (JInt 0)) (\<lambda>v4.
     and_then (add_tokens ops tc v4) (\<lambda>tc'.
     Inr \<lparr>total_input = ti, total_output = to, total_cache = tc'\<rparr>))))))))"

definition scan_entry :: "'f float_ops \<Rightarrow> 'f totals \<Rightarrow> 'f json \<Rightarrow> error + 'f totals" where
  \<comment> \<open>lines 121 to 131, for one decoded line\<close>
  "scan_entry ops t entry =
     and_then (dict_get entry ''type'' JNull) (\<lambda>ty.
       if ty \<noteq> JStr ''message'' then Inr t
       else
         and_then (dict_get entry ''message'' (JObj [])) (\<lambda>msg.
         and_then (dict_get msg ''role'' JNull) (\<lambda>role.
           if role \<noteq> JStr ''assistant'' then Inr t
           else and_then (dict_get msg ''usage'' (JObj [])) (add_usage ops t))))"

definition scan_line ::
  "'f float_ops \<Rightarrow> (string \<Rightarrow> 'f decoded) \<Rightarrow> 'f totals \<Rightarrow> string \<Rightarrow> error + 'f totals" where
  \<comment> \<open>lines 113 to 131, for one line of a file\<close>
  "scan_line ops loads t line =
     (let l = strip line in
      if l = [] then Inr t
      else case loads l of
             JSONDecodeError \<Rightarrow> Inr t
           | DecoderRaised x \<Rightarrow> Inl (Uncaught x)
           | Decoded entry \<Rightarrow> scan_entry ops t entry)"

fun scan_lines ::
  "'f float_ops \<Rightarrow> (string \<Rightarrow> 'f decoded) \<Rightarrow> 'f totals \<Rightarrow> string list \<Rightarrow> error + 'f totals" where
  "scan_lines ops loads t [] = Inr t"
| "scan_lines ops loads t (line # rest) =
     and_then (scan_line ops loads t line) (\<lambda>t'. scan_lines ops loads t' rest)"

text \<open>
  Reading a file gives its lines, and may end in an exception that nothing catches: of
  \<open>open\<close> (before any line: a directory whose name matches) or of the decoding of the
  bytes read (\<open>UnicodeDecodeError\<close>, after the lines read so far). A file is the lines
  read and the name of that exception, if any. A directory is the list of its entries,
  each a name and a file, in the order the directory is listed; \<open>glob("*.jsonl")\<close>
  keeps the entries whose name ends in \<open>.jsonl\<close>. The sessions directory is \<open>None\<close>
  when it does not exist. The context has the three fields the adapter writes, each a
  number or \<open>None\<close>.
\<close>

type_synonym log_file = "string list \<times> string option"

type_synonym directory = "(string \<times> log_file) list"

fun scan_file ::
  "'f float_ops \<Rightarrow> (string \<Rightarrow> 'f decoded) \<Rightarrow> 'f totals \<Rightarrow> log_file \<Rightarrow> error + 'f totals" where
  \<comment> \<open>lines 111 to 131, for one file\<close>
  "scan_file ops loads t (ls, raised) =
     and_then (scan_lines ops loads t ls) (\<lambda>t'.
       case raised of None \<Rightarrow> Inr t' | Some x \<Rightarrow> Inl (Uncaught x))"

fun scan_files ::
  "'f float_ops \<Rightarrow> (string \<Rightarrow> 'f decoded) \<Rightarrow> 'f totals \<Rightarrow> log_file list \<Rightarrow> error + 'f totals" where
  "scan_files ops loads t [] = Inr t"
| "scan_files ops loads t (f # fs) =
     and_then (scan_file ops loads t f) (\<lambda>t'. scan_files ops loads t' fs)"

definition glob_jsonl :: "directory \<Rightarrow> log_file list" where
  "glob_jsonl dir = map snd (filter (\<lambda>(name, f). suffix ''.jsonl'' name) dir)"

record 'f agent_context =
  n_input_tokens :: "'f number option"
  n_cache_tokens :: "'f number option"
  n_output_tokens :: "'f number option"

definition report :: "'f float_ops \<Rightarrow> 'f agent_context \<Rightarrow> 'f totals \<Rightarrow> 'f agent_context" where
  \<comment> \<open>lines 133 to 135\<close>
  "report ops context t =
     context\<lparr>n_input_tokens := Some (total_input t),
             n_output_tokens := Some (total_output t),
             n_cache_tokens :=
               (if gt_zero ops (total_cache t) then Some (total_cache t) else None)\<rparr>"

definition populate_context_post_run ::
  "'f float_ops \<Rightarrow> (string \<Rightarrow> 'f decoded) \<Rightarrow> directory option \<Rightarrow> 'f agent_context
     \<Rightarrow> error + 'f agent_context" where
  "populate_context_post_run ops loads sessions_dir context =
     (case sessions_dir of
        None \<Rightarrow> Inr context
      | Some dir \<Rightarrow>
          and_then (scan_files ops loads zero_totals (glob_jsonl dir))
            (\<lambda>t. Inr (report ops context t)))"

text \<open>
  The spec's words for what the aggregation counts (4.3, steps 3 to 5), on the data alone:
  a line contributes when it is not blank, decodes, has type \<open>message\<close> and a nested
  message of role \<open>assistant\<close>; its usage record is the nested \<open>usage\<close>, empty when
  absent; a count missing from the record is 0; the cache total is the sum, in the order
  read, of the cache-read and the cache-write count of every contributing line.
\<close>

definition count_of :: "(string \<times> 'f json) list \<Rightarrow> string \<Rightarrow> 'f json" where
  "count_of usage key = (case map_of usage key of None \<Rightarrow> JInt 0 | Some v \<Rightarrow> v)"

definition spec_entry_usage :: "'f json \<Rightarrow> (string \<times> 'f json) list option" where
  "spec_entry_usage entry =
     (case entry of
        JObj kvs \<Rightarrow>
          if map_of kvs ''type'' = Some (JStr ''message'') then
            (case map_of kvs ''message'' of
               Some (JObj m) \<Rightarrow>
                 if map_of m ''role'' = Some (JStr ''assistant'') then
                   (case map_of m ''usage'' of
                      None \<Rightarrow> Some []
                    | Some (JObj u) \<Rightarrow> Some u
                    | Some _ \<Rightarrow> None)
                 else None
             | _ \<Rightarrow> None)
          else None
      | _ \<Rightarrow> None)"

definition spec_line_usage ::
  "(string \<Rightarrow> 'f decoded) \<Rightarrow> string \<Rightarrow> (string \<times> 'f json) list option" where
  "spec_line_usage loads line =
     (if strip line = [] then None
      else case loads (strip line) of
             Decoded entry \<Rightarrow> spec_entry_usage entry
           | _ \<Rightarrow> None)"

definition usage_cache_counts :: "(string \<times> 'f json) list option \<Rightarrow> 'f json list" where
  "usage_cache_counts u =
     (case u of
        None \<Rightarrow> []
      | Some usage \<Rightarrow> [count_of usage ''cacheReadTokens'', count_of usage ''cacheWriteTokens''])"

definition spec_cache_counts :: "(string \<Rightarrow> 'f decoded) \<Rightarrow> string list \<Rightarrow> 'f json list" where
  "spec_cache_counts loads ls = concat (map (\<lambda>l. usage_cache_counts (spec_line_usage loads l)) ls)"

fun sum_counts :: "'f float_ops \<Rightarrow> 'f number \<Rightarrow> 'f json list \<Rightarrow> error + 'f number" where
  "sum_counts ops n [] = Inr n"
| "sum_counts ops n (v # vs) = and_then (add_tokens ops n v) (\<lambda>n'. sum_counts ops n' vs)"

text \<open>
  A usage record has integer counts when none of its four counts is a float. All the
  lines that the \<open>.jsonl\<close> files of a directory give, in the order read, are
  \<open>session_lines\<close>.
\<close>

definition is_float :: "'f json \<Rightarrow> bool" where
  "is_float v = (case v of JFloat x \<Rightarrow> True | _ \<Rightarrow> False)"

definition integer_usage :: "(string \<times> 'f json) list \<Rightarrow> bool" where
  "integer_usage usage =
     list_all (\<lambda>key. \<not> is_float (count_of usage key))
       [''inputTokens'', ''outputTokens'', ''cacheReadTokens'', ''cacheWriteTokens'']"

definition integer_line :: "(string \<Rightarrow> 'f decoded) \<Rightarrow> string \<Rightarrow> bool" where
  "integer_line loads line =
     (case spec_line_usage loads line of None \<Rightarrow> True | Some usage \<Rightarrow> integer_usage usage)"

definition session_lines :: "directory \<Rightarrow> string list" where
  "session_lines dir = concat (map fst (glob_jsonl dir))"

text \<open>
  For the proofs: totals of three ints, and the three ints a line adds to totals of zero
  (zeros when the line raises).
\<close>

definition int_totals :: "int \<Rightarrow> int \<Rightarrow> int \<Rightarrow> 'f totals" where
  "int_totals a b c = \<lparr>total_input = PInt a, total_output = PInt b, total_cache = PInt c\<rparr>"

fun int_of :: "'f number \<Rightarrow> int" where
  "int_of (PInt a) = a"
| "int_of (PFloat x) = 0"

definition line_ints ::
  "'f float_ops \<Rightarrow> (string \<Rightarrow> 'f decoded) \<Rightarrow> string \<Rightarrow> int \<times> int \<times> int" where
  "line_ints ops loads line =
     (case scan_line ops loads zero_totals line of
        Inr t \<Rightarrow> (int_of (total_input t), int_of (total_output t), int_of (total_cache t))
      | Inl e \<Rightarrow> (0, 0, 0))"

subsection \<open>Binary64 arithmetic\<close>

text \<open>
  The floats of Python are IEEE 754 binary64 numbers. A finite one is \<open>m * 2 ^ e\<close> with
  \<open>m\<close> odd, or \<open>Finite 0 0\<close> for zero; \<open>NegZero\<close> is the negative zero. The sum of two
  finite numbers is their exact sum rounded to 53 bits, ties to even, and an infinity
  from \<open>2 ^ 1024\<close> on; the sum of two binary64 numbers is a multiple of the smallest
  subnormal, so nothing is lost below. \<open>float(i)\<close> rounds the same way and raises
  \<open>OverflowError\<close> where the rounding gives an infinity.
\<close>

datatype binary64 = Finite int int | NegZero | PosInf | NegInf | NaN

function bits :: "int \<Rightarrow> nat" where
  \<comment> \<open>the number of bits of a positive integer\<close>
  "bits n = (if n \<le> 0 then 0 else Suc (bits (n div 2)))"
  by pat_completeness auto
termination
  by (relation "measure nat") auto

declare bits.simps [simp del]

function trim :: "int \<Rightarrow> int \<Rightarrow> int \<times> int" where
  "trim m e = (if m \<noteq> 0 \<and> even m then trim (m div 2) (e + 1) else (m, e))"
  by pat_completeness auto
termination
  by (relation "measure (\<lambda>(m, e). nat \<bar>m\<bar>)") auto

declare trim.simps [simp del]

definition round_half_even :: "int \<Rightarrow> nat \<Rightarrow> int" where
  \<comment> \<open>\<open>m / 2 ^ k\<close> for \<open>m \<ge> 0\<close>, to the nearest integer, ties to even\<close>
  "round_half_even m k =
     (let q = m div 2 ^ k; r = m mod 2 ^ k
      in if 2 * r > 2 ^ k \<or> (2 * r = 2 ^ k \<and> odd q) then q + 1 else q)"

definition round_pack :: "int \<Rightarrow> int \<Rightarrow> binary64" where
  \<comment> \<open>the binary64 number nearest to \<open>m * 2 ^ e\<close>, for \<open>m \<noteq> 0\<close>\<close>
  "round_pack m e =
     (let k = int (bits \<bar>m\<bar>) - 53;
          q = (if k \<le> 0 then \<bar>m\<bar> else round_half_even \<bar>m\<bar> (nat k));
          e' = (if k \<le> 0 then e else e + k)
      in if int (bits q) + e' > 1024 then (if m < 0 then NegInf else PosInf)
         else case trim q e' of (q', e'') \<Rightarrow> Finite (if m < 0 then - q' else q') e'')"

fun b64_add :: "binary64 \<Rightarrow> binary64 \<Rightarrow> binary64" where
  "b64_add NaN y = NaN"
| "b64_add x NaN = NaN"
| "b64_add PosInf NegInf = NaN"
| "b64_add NegInf PosInf = NaN"
| "b64_add PosInf y = PosInf"
| "b64_add NegInf y = NegInf"
| "b64_add x PosInf = PosInf"
| "b64_add x NegInf = NegInf"
| "b64_add NegZero y = y"
| "b64_add x NegZero = x"
| "b64_add (Finite m1 e1) (Finite m2 e2) =
     (let e = min e1 e2;
          m = m1 * 2 ^ nat (e1 - e) + m2 * 2 ^ nat (e2 - e)
      in if m = 0 then Finite 0 0 else round_pack m e)"

definition b64_of_int :: "int \<Rightarrow> binary64 option" where
  "b64_of_int i =
     (if i = 0 then Some (Finite 0 0)
      else case round_pack i 0 of
             PosInf \<Rightarrow> None
           | NegInf \<Rightarrow> None
           | x \<Rightarrow> Some x)"

fun b64_positive :: "binary64 \<Rightarrow> bool" where
  "b64_positive (Finite m e) = (0 < m)"
| "b64_positive PosInf = True"
| "b64_positive _ = False"

definition binary64_ops :: "binary64 float_ops" where
  "binary64_ops =
     \<lparr>float_add = b64_add, float_of_int = b64_of_int, float_positive = b64_positive\<rparr>"

subsection \<open>Example data\<close>

text \<open>
  The decoded form of a message line with a role and a usage record; lines of a session
  log with integer counts, and three with the counts 0.1, 0.2 and 0.3 (the binary64
  numbers nearest to them); a line of 100000 opening brackets, on which \<open>json.loads\<close>
  raises \<open>RecursionError\<close>; and a decoder that knows these lines and raises
  \<open>JSONDecodeError\<close> on every other string.
\<close>

definition message_entry :: "string \<Rightarrow> (string \<times> 'f json) list \<Rightarrow> 'f json" where
  "message_entry role usage =
     JObj [(''type'', JStr ''message''),
           (''message'', JObj [(''role'', JStr role), (''usage'', JObj usage)])]"

definition line_a :: string where
  \<open>line_a = ''{"type":"message","message":{"role":"assistant","usage":{"inputTokens":10,"outputTokens":5}}}''\<close>

definition line_b :: string where
  \<open>line_b = ''{"type":"message","message":{"role":"assistant","usage":{"inputTokens":3,"outputTokens":2,"cacheReadTokens":1}}}''\<close>

definition line_c :: string where
  \<open>line_c = ''{"type":"message","message":{"role":"user","usage":{"inputTokens":100,"outputTokens":50}}}''\<close>

definition line_tenth :: string where
  \<open>line_tenth = ''{"type":"message","message":{"role":"assistant","usage":{"inputTokens":0.1}}}''\<close>

definition line_fifth :: string where
  \<open>line_fifth = ''{"type":"message","message":{"role":"assistant","usage":{"inputTokens":0.2}}}''\<close>

definition line_three_tenths :: string where
  \<open>line_three_tenths = ''{"type":"message","message":{"role":"assistant","usage":{"inputTokens":0.3}}}''\<close>

definition line_nested :: string where
  "line_nested = replicate 100000 (CHR ''['')"

definition example_table :: "(string \<times> binary64 json) list" where
  "example_table =
     [(line_a, message_entry ''assistant'' [(''inputTokens'', JInt 10), (''outputTokens'', JInt 5)]),
      (line_b, message_entry ''assistant''
                 [(''inputTokens'', JInt 3), (''outputTokens'', JInt 2), (''cacheReadTokens'', JInt 1)]),
      (line_c, message_entry ''user'' [(''inputTokens'', JInt 100), (''outputTokens'', JInt 50)]),
      (line_tenth,
         message_entry ''assistant'' [(''inputTokens'', JFloat (Finite 3602879701896397 (- 55)))]),
      (line_fifth,
         message_entry ''assistant'' [(''inputTokens'', JFloat (Finite 3602879701896397 (- 54)))]),
      (line_three_tenths,
         message_entry ''assistant'' [(''inputTokens'', JFloat (Finite 5404319552844595 (- 54)))])]"

definition example_loads :: "string \<Rightarrow> binary64 decoded" where
  "example_loads l =
     (if l = line_nested then DecoderRaised ''RecursionError''
      else case map_of example_table l of
             None \<Rightarrow> JSONDecodeError
           | Some entry \<Rightarrow> Decoded entry)"

definition unset_context :: "binary64 agent_context" where
  \<comment> \<open>a context none of whose fields is set\<close>
  "unset_context = \<lparr>n_input_tokens = None, n_cache_tokens = None, n_output_tokens = None\<rparr>"

section \<open>Properties\<close>

subsection \<open>Binary resolver\<close>

lemma msgs_differ: "override_missing_msg p \<noteq> cannot_find_msg"
  by (simp add: override_missing_msg_def cannot_find_msg_def)

lemma auto_detect_cases:
  "auto_detect exists git = Inl (FileNotFoundError cannot_find_msg) \<or>
   (\<exists>x. auto_detect exists git = Inl (Uncaught x)) \<or>
   (\<exists>out. git = Output out \<and> exists (candidate out) = Inr True \<and>
      auto_detect exists git = Inr (candidate out))"
  by (cases git) (auto simp: auto_detect_def split: sum.splits)

lemma auto_detect_not_override_error:
  "auto_detect exists git \<noteq> Inl (FileNotFoundError (override_missing_msg p))"
  using auto_detect_cases [of exists git] msgs_differ [of p] by auto

text \<open>
  Claim C2. When \<open>DILIGENT_BINARY_PATH\<close> is configured (set and not empty, the test
  \<open>if env_path:\<close>) and the path does not exist, resolution raises the
  \<open>FileNotFoundError\<close> that names the variable and its value, whatever git answers and
  whatever else exists: the result is never the one of the search under the repository
  root.
\<close>

theorem override_missing_fails:
  assumes "environ ''DILIGENT_BINARY_PATH'' = Some p" and "p \<noteq> []"
    and "exists (Path p) = Inr False"
  shows "resolve_binary_path environ exists git = Inl (FileNotFoundError (override_missing_msg p))
       \<and> resolve_binary_path environ exists git \<noteq> auto_detect exists git"
proof -
  have r: "resolve_binary_path environ exists git
             = Inl (FileNotFoundError (override_missing_msg p))"
    using assms by (simp add: resolve_binary_path_def)
  with auto_detect_not_override_error [of exists git p] show ?thesis by simp
qed

theorem override_missing_fails_witness:
  "resolve_binary_path [''DILIGENT_BINARY_PATH'' \<mapsto> ''/opt/missing'']
      (\<lambda>q. Inr (q = candidate ''/repo'')) (Output ''/repo'')
     = Inl (FileNotFoundError ''DILIGENT_BINARY_PATH=/opt/missing does not exist'')
   \<and> auto_detect (\<lambda>q. Inr (q = candidate ''/repo'')) (Output ''/repo'')
     = Inr (candidate ''/repo'')"
  using override_missing_fails [of "[''DILIGENT_BINARY_PATH'' \<mapsto> ''/opt/missing'']"
      "''/opt/missing''" "\<lambda>q. Inr (q = candidate ''/repo'')" "Output ''/repo''"]
  by (simp add: override_missing_msg_def candidate_def auto_detect_def)

text \<open>
  Claim C3, as stated, fails where the call of git raises an exception other than the two
  of line 55 (a \<open>PermissionError\<close> when the git found on the path cannot be executed):
  no override is configured, no candidate exists, and the exception leaves the function
  in place of the \<open>FileNotFoundError\<close> that names the two remedies.
\<close>

theorem git_raises_other_counterexample:
  "resolve_binary_path Map.empty nothing_exists (GitRaised ''PermissionError'')
     = Inl (Uncaught ''PermissionError'')
   \<and> resolve_binary_path Map.empty nothing_exists (GitRaised ''PermissionError'')
     \<noteq> Inl (FileNotFoundError cannot_find_msg)"
  by (simp add: resolve_binary_path_def auto_detect_def caught_def)

text \<open>
  Claim C3, amended. With no override configured, when git names a repository root under
  which \<open>dist/diligent-linux-x64\<close> does not exist, or git fails with
  \<open>CalledProcessError\<close> or \<open>FileNotFoundError\<close>, resolution raises a
  \<open>FileNotFoundError\<close> whose message names both remedies: setting
  \<open>DILIGENT_BINARY_PATH\<close> and running \<open>bun run build:linux-x64\<close>.
\<close>

theorem nothing_found_names_both_remedies:
  assumes "environ ''DILIGENT_BINARY_PATH'' = None \<or> environ ''DILIGENT_BINARY_PATH'' = Some []"
    and "(git = Output out \<and> exists (candidate out) = Inr False)
         \<or> git = CalledProcessError \<or> git = GitNotFound"
  shows "resolve_binary_path environ exists git = Inl (FileNotFoundError cannot_find_msg)
       \<and> sublist ''set DILIGENT_BINARY_PATH'' cannot_find_msg
       \<and> sublist ''run '' cannot_find_msg
       \<and> sublist ''bun run build:linux-x64'' cannot_find_msg"
proof -
  have "auto_detect exists git = Inl (FileNotFoundError cannot_find_msg)"
    using assms(2) by (auto simp: auto_detect_def)
  then have "resolve_binary_path environ exists git = Inl (FileNotFoundError cannot_find_msg)"
    using assms(1) by (auto simp: resolve_binary_path_def)
  moreover have "sublist ''set DILIGENT_BINARY_PATH'' cannot_find_msg"
    by code_simp
  moreover have "sublist ''run '' cannot_find_msg"
    by code_simp
  moreover have "sublist ''bun run build:linux-x64'' cannot_find_msg"
    by code_simp
  ultimately show ?thesis by simp
qed

theorem nothing_found_names_both_remedies_witness:
  "resolve_binary_path Map.empty nothing_exists (Output ''/repo'')
     = Inl (FileNotFoundError cannot_find_msg)
   \<and> resolve_binary_path Map.empty (\<lambda>q. Inr (q = Path ''/usr/bin/diligent'')) CalledProcessError
     = Inl (FileNotFoundError cannot_find_msg)"
  using nothing_found_names_both_remedies [of Map.empty "Output ''/repo''" "''/repo''"
      nothing_exists]
    nothing_found_names_both_remedies [of Map.empty CalledProcessError "[]"
      "\<lambda>q. Inr (q = Path ''/usr/bin/diligent'')"]
  by (simp add: nothing_exists_def)

text \<open>
  Claim C10. When \<open>DILIGENT_BINARY_PATH\<close> is set to the empty string, resolution is
  the search under the repository root, and its result is never the error of a missing
  override.
\<close>

theorem empty_override_falls_back:
  assumes "environ ''DILIGENT_BINARY_PATH'' = Some []"
  shows "resolve_binary_path environ exists git = auto_detect exists git
       \<and> (\<forall>p. resolve_binary_path environ exists git
                \<noteq> Inl (FileNotFoundError (override_missing_msg p)))"
  using assms auto_detect_not_override_error [of exists git]
  by (simp add: resolve_binary_path_def)

theorem empty_override_falls_back_witness:
  "resolve_binary_path [''DILIGENT_BINARY_PATH'' \<mapsto> []]
      (\<lambda>q. Inr (q = candidate ''/repo'')) (Output ''/repo'') = Inr (candidate ''/repo'')
   \<and> resolve_binary_path [''DILIGENT_BINARY_PATH'' \<mapsto> []] (\<lambda>q. Inr False) GitNotFound
      = Inl (FileNotFoundError cannot_find_msg)"
  using empty_override_falls_back [of "[''DILIGENT_BINARY_PATH'' \<mapsto> []]"
      "\<lambda>q. Inr (q = candidate ''/repo'')" "Output ''/repo''"]
    empty_override_falls_back [of "[''DILIGENT_BINARY_PATH'' \<mapsto> []]" "\<lambda>q. Inr False" GitNotFound]
  by (simp add: auto_detect_def)

subsection \<open>Invocation builder\<close>

lemma safe_char_plain:
  "safe_char c \<Longrightarrow> \<not> shlex_whitespace c \<and> \<not> shlex_quotes c \<and> c \<noteq> backslash"
  by (auto simp: safe_char_def shlex_whitespace_def shlex_quotes_def backslash_def
      squote_def dquote_def)

lemma read_word_safe:
  "list_all safe_char s \<Longrightarrow> read_tokens Word quoted token s = emit quoted (token @ s) (Inr [])"
proof (induction s arbitrary: token)
  case Nil
  show ?case by simp
next
  case (Cons c s)
  from Cons.prems have c: "safe_char c" and s: "list_all safe_char s" by simp_all
  from safe_char_plain [OF c] Cons.IH [OF s, of "token @ [c]"] show ?case by simp
qed

lemma read_blank_safe:
  assumes "list_all safe_char s" and "s \<noteq> []"
  shows "read_tokens Blank False [] s = Inr [s]"
proof -
  from assms obtain c cs where s: "s = c # cs" by (cases s) auto
  with assms have c: "safe_char c" and cs: "list_all safe_char cs" by simp_all
  from safe_char_plain [OF c] read_word_safe [OF cs, of False "[c]"] s show ?thesis
    by (simp add: emit_def)
qed

lemma replace_squote_Cons:
  "replace_squote (c # s) =
     (if c = squote then [squote, dquote, squote, dquote, squote] else [c]) @ replace_squote s"
  by (simp add: replace_squote_def)

text \<open>
  Inside single quotes the tokenizer copies every character; at a replaced quote it
  leaves the single quotes, reads the quote between double quotes, and enters single
  quotes again.
\<close>

lemma read_quoted_body:
  "read_tokens (Quote squote) quoted token (replace_squote s @ [squote]) = Inr [token @ s]"
proof (induction s arbitrary: quoted token)
  case Nil
  show ?case by (simp add: replace_squote_def emit_def)
next
  case (Cons c s)
  show ?case
  proof (cases "c = squote")
    case True
    have "read_tokens (Quote squote) quoted token (replace_squote (c # s) @ [squote])
        = read_tokens (Quote squote) True (token @ [squote]) (replace_squote s @ [squote])"
      using True
      by (simp add: replace_squote_Cons shlex_whitespace_def shlex_quotes_def squote_def
          dquote_def backslash_def)
    with Cons.IH [of True "token @ [squote]"] True show ?thesis by simp
  next
    case False
    have "read_tokens (Quote squote) quoted token (replace_squote (c # s) @ [squote])
        = read_tokens (Quote squote) True (token @ [c]) (replace_squote s @ [squote])"
      using False by (simp add: replace_squote_Cons squote_def dquote_def)
    with Cons.IH [of True "token @ [c]"] show ?thesis by simp
  qed
qed

lemma read_quote: "read_tokens Blank False [] (quote s) = Inr [s]"
proof (cases "s = []")
  case True
  then show ?thesis
    by (simp add: quote_def shlex_whitespace_def shlex_quotes_def squote_def dquote_def
        backslash_def emit_def)
next
  case False
  show ?thesis
  proof (cases "list_all safe_char s")
    case True
    with False read_blank_safe [of s] show ?thesis by (simp add: quote_def)
  next
    case unsafe: False
    have "read_tokens Blank False [] (quote s)
        = read_tokens (Quote squote) False [] (replace_squote s @ [squote])"
      using False unsafe
      by (simp add: quote_def shlex_whitespace_def shlex_quotes_def squote_def dquote_def
          backslash_def)
    with read_quoted_body [of False "[]" s] show ?thesis by simp
  qed
qed

lemma read_prompt_prefix:
  "read_tokens Blank False [] (''/installed-agent/diligent --prompt '' @ rest)
     = map_sum id (\<lambda>ts. ''/installed-agent/diligent'' # ''--prompt'' # ts)
         (read_tokens Blank False [] rest)"
  by (cases "read_tokens Blank False [] rest")
     (simp_all add: shlex_whitespace_def shlex_quotes_def squote_def dquote_def backslash_def
        emit_def)

text \<open>
  Claim C4. For every instruction, splitting the command of the agent-run step with the
  tokenizer succeeds and gives three arguments: the binary, \<open>--prompt\<close>, and the
  instruction itself, unchanged, as the single argument after \<open>--prompt\<close>.
\<close>

theorem instruction_round_trip:
  "shlex_split (command (create_run_agent_commands a environ output_dir instruction ! 0))
     = Inr [''/installed-agent/diligent'', ''--prompt'', instruction]"
  by (simp add: shlex_split_def create_run_agent_commands_def read_prompt_prefix read_quote
      del: append.simps)

lemma first_slash_split:
  assumes "CHR ''/'' \<in> set m"
  shows "m = takeWhile (\<lambda>c. c \<noteq> CHR ''/'') m @ CHR ''/'' # after_first_slash m"
proof -
  let ?P = "\<lambda>c. c \<noteq> CHR ''/''"
  from assms have ne: "dropWhile ?P m \<noteq> []" by (simp add: dropWhile_eq_Nil_conv) 
  then have "hd (dropWhile ?P m) = CHR ''/''" using hd_dropWhile [of ?P m] by simp
  with ne have "dropWhile ?P m = CHR ''/'' # tl (dropWhile ?P m)"
    by (cases "dropWhile ?P m") simp_all
  then have "takeWhile ?P m @ CHR ''/'' # after_first_slash m = takeWhile ?P m @ dropWhile ?P m"
    by (simp add: after_first_slash_def)
  then show ?thesis by simp
qed

text \<open>
  Claim C5. For every configured model identifier (set and not empty, the test
  \<open>if self.model_name:\<close>), the value stored under \<open>DILIGENT_MODEL\<close> at line 79 is
  the identifier without everything up to and including its first slash, and the
  identifier itself when it has no slash: \<open>anthropic/claude-x\<close> and \<open>claude-x\<close> both
  give \<open>claude-x\<close>. The environment of the agent-run step holds that value under
  \<open>DILIGENT_MODEL\<close>, unless the extra environment of the constructor has its own, which
  \<open>env.update\<close> then stores in its place.
\<close>

theorem model_variable_is_stripped_id:
  assumes "model_name a = Some m" and "m \<noteq> []"
  shows "env_before_extra a environ ''DILIGENT_MODEL'' = Some (model_id m)
    \<and> env (create_run_agent_commands a environ output_dir instruction ! 0)
        = Some (run_env a environ)
    \<and> run_env a environ ''DILIGENT_MODEL''
        = (case extra_env a ''DILIGENT_MODEL'' of None \<Rightarrow> Some (model_id m) | Some v \<Rightarrow> Some v)
    \<and> (CHR ''/'' \<in> set m \<longrightarrow>
         (\<exists>pre. CHR ''/'' \<notin> set pre \<and> m = pre @ CHR ''/'' # model_id m))
    \<and> (CHR ''/'' \<notin> set m \<longrightarrow> model_id m = m)
    \<and> model_id ''anthropic/claude-x'' = ''claude-x''
    \<and> model_id ''claude-x'' = ''claude-x''"
proof -
  have 1: "env_before_extra a environ ''DILIGENT_MODEL'' = Some (model_id m)"
    using assms by (simp add: env_before_extra_def forward_model_def)
  have 2: "env (create_run_agent_commands a environ output_dir instruction ! 0)
        = Some (run_env a environ)"
    by (simp add: create_run_agent_commands_def)
  have 3: "run_env a environ ''DILIGENT_MODEL''
        = (case extra_env a ''DILIGENT_MODEL'' of None \<Rightarrow> Some (model_id m) | Some v \<Rightarrow> Some v)"
    using 1 by (simp add: run_env_def map_add_def split: option.splits)
  have 4: "CHR ''/'' \<in> set m \<longrightarrow>
         (\<exists>pre. CHR ''/'' \<notin> set pre \<and> m = pre @ CHR ''/'' # model_id m)"
  proof
    assume s: "CHR ''/'' \<in> set m"
    let ?pre = "takeWhile (\<lambda>c. c \<noteq> CHR ''/'') m"
    have "CHR ''/'' \<notin> set ?pre" using set_takeWhileD [of "CHR ''/''" _ m] by blast
    moreover have "m = ?pre @ CHR ''/'' # model_id m"
      using first_slash_split [OF s] s by (simp add: model_id_def)
    ultimately show "\<exists>pre. CHR ''/'' \<notin> set pre \<and> m = pre @ CHR ''/'' # model_id m" by blast
  qed
  have 5: "CHR ''/'' \<notin> set m \<longrightarrow> model_id m = m" by (simp add: model_id_def)
  have 6: "model_id ''anthropic/claude-x'' = ''claude-x''"
    by (simp add: model_id_def after_first_slash_def)
  have 7: "model_id ''claude-x'' = ''claude-x''" by (simp add: model_id_def)
  from 1 2 3 4 5 6 7 show ?thesis by blast
qed

theorem model_variable_is_stripped_id_witness:
  "run_env \<lparr>model_name = Some ''anthropic/claude-x'', extra_env = Map.empty\<rparr> Map.empty ''DILIGENT_MODEL''
     = Some ''claude-x''
   \<and> run_env \<lparr>model_name = Some ''claude-x'', extra_env = Map.empty\<rparr> Map.empty ''DILIGENT_MODEL''
     = Some ''claude-x''"
  using model_variable_is_stripped_id [of "\<lparr>model_name = Some ''anthropic/claude-x'', extra_env = Map.empty\<rparr>" "''anthropic/claude-x''" Map.empty]
   model_variable_is_stripped_id [of "\<lparr>model_name = Some ''claude-x'', extra_env = Map.empty\<rparr>" "''claude-x''" Map.empty]
  by simp

lemma forward_keys_cong:
  "\<forall>k \<in> set keys. e1 k = e2 k \<Longrightarrow> forward_keys e1 keys e = forward_keys e2 keys e"
  unfolding forward_keys_def
  by (induction keys arbitrary: e) simp_all

lemma dom_forward_keys: "dom (forward_keys environ keys e) \<subseteq> set keys \<union> dom e"
proof (induction keys arbitrary: e)
  case Nil
  show ?case by (simp add: forward_keys_def)
next
  case (Cons k ks)
  have "forward_keys environ (k # ks) e
      = forward_keys environ ks (case environ k of Some v \<Rightarrow> e(k \<mapsto> v) | None \<Rightarrow> e)"
    by (simp add: forward_keys_def)
  with Cons.IH [of "case environ k of Some v \<Rightarrow> e(k \<mapsto> v) | None \<Rightarrow> e"]
  show ?case by (auto split: option.splits)
qed

lemma dom_forward_model: "dom (forward_model name e) \<subseteq> insert ''DILIGENT_MODEL'' (dom e)"
  by (auto simp: forward_model_def split: option.splits if_splits)

text \<open>
  Claim C9. Two ambient environments that agree on \<open>ANTHROPIC_API_KEY\<close> and on
  \<open>OPENAI_API_KEY\<close> give, for the same agent, the same environment of the agent-run
  step, and the same commands. The only names in that environment are the two keys,
  \<open>DILIGENT_MODEL\<close>, and the names of the constructor's extra environment.
\<close>

theorem overlay_ignores_other_variables:
  assumes "e1 ''ANTHROPIC_API_KEY'' = e2 ''ANTHROPIC_API_KEY''"
    and "e1 ''OPENAI_API_KEY'' = e2 ''OPENAI_API_KEY''"
  shows "create_run_agent_commands a e1 output_dir instruction
           = create_run_agent_commands a e2 output_dir instruction
       \<and> run_env a e1 = run_env a e2
       \<and> dom (run_env a e1)
           \<subseteq> {''ANTHROPIC_API_KEY'', ''OPENAI_API_KEY'', ''DILIGENT_MODEL''} \<union> dom (extra_env a)"
proof -
  have "forward_keys e1 [''ANTHROPIC_API_KEY'', ''OPENAI_API_KEY''] Map.empty
      = forward_keys e2 [''ANTHROPIC_API_KEY'', ''OPENAI_API_KEY''] Map.empty"
    using assms by (intro forward_keys_cong) simp
  then have r: "run_env a e1 = run_env a e2"
    by (simp add: run_env_def env_before_extra_def)
  have "dom (env_before_extra a e1) \<subseteq> {''ANTHROPIC_API_KEY'', ''OPENAI_API_KEY'', ''DILIGENT_MODEL''}"
    unfolding env_before_extra_def
    using dom_forward_model [of "model_name a" "forward_keys e1 [''ANTHROPIC_API_KEY'', ''OPENAI_API_KEY''] Map.empty"]
      dom_forward_keys [of e1 "[''ANTHROPIC_API_KEY'', ''OPENAI_API_KEY'']" Map.empty]
    by auto
  then have d: "dom (run_env a e1)
           \<subseteq> {''ANTHROPIC_API_KEY'', ''OPENAI_API_KEY'', ''DILIGENT_MODEL''} \<union> dom (extra_env a)"
    by (auto simp: run_env_def)
  from r d show ?thesis by (simp add: create_run_agent_commands_def)
qed

theorem overlay_ignores_other_variables_witness:
  "run_env \<lparr>model_name = None, extra_env = Map.empty\<rparr>
      [''ANTHROPIC_API_KEY'' \<mapsto> ''k1'', ''HOME'' \<mapsto> ''/root'']
   = run_env \<lparr>model_name = None, extra_env = Map.empty\<rparr>
      [''ANTHROPIC_API_KEY'' \<mapsto> ''k1'', ''AWS_SECRET_ACCESS_KEY'' \<mapsto> ''s3cret'']"
  using overlay_ignores_other_variables [of "[''ANTHROPIC_API_KEY'' \<mapsto> ''k1'', ''HOME'' \<mapsto> ''/root'']"
      "[''ANTHROPIC_API_KEY'' \<mapsto> ''k1'', ''AWS_SECRET_ACCESS_KEY'' \<mapsto> ''s3cret'']"
      "\<lparr>model_name = None, extra_env = Map.empty\<rparr>"]
  by simp

subsection \<open>Usage aggregator\<close>

lemma and_then_simps [simp]:
  "and_then (Inl e) f = Inl e" "and_then (Inr x) f = f x"
  by (simp_all add: and_then_def)

text \<open>Facts about the example lines.\<close>

lemma dropWhile_fixed: "xs \<noteq> [] \<Longrightarrow> \<not> P (hd xs) \<Longrightarrow> dropWhile P xs = xs"
  by (cases xs) simp_all

lemma strip_fixed:
  assumes "s \<noteq> []" and "\<not> py_isspace (hd s)" and "\<not> py_isspace (last s)"
  shows "strip s = s"
proof -
  have 1: "dropWhile py_isspace s = s" using assms(1,2) by (rule dropWhile_fixed)
  have "rev s \<noteq> []" and "\<not> py_isspace (hd (rev s))" using assms(1,3) by (simp_all add: hd_rev)
  then have "dropWhile py_isspace (rev s) = rev s" by (rule dropWhile_fixed)
  with 1 show ?thesis by (simp add: strip_def)
qed

lemma brace_not_space: "\<not> py_isspace (CHR ''{'')" "\<not> py_isspace (CHR ''}'')" "\<not> py_isspace (CHR ''['')"
  by (simp_all add: py_isspace_def)

lemma example_strips:
  "strip line_a = line_a" "strip line_b = line_b" "strip line_c = line_c"
  "strip line_tenth = line_tenth" "strip line_fifth = line_fifth"
  "strip line_three_tenths = line_three_tenths"
  by (rule strip_fixed; simp add: line_a_def line_b_def line_c_def line_tenth_def line_fifth_def
      line_three_tenths_def brace_not_space)+

lemma strip_nested: "strip line_nested = line_nested"
  by (rule strip_fixed) (simp_all add: line_nested_def brace_not_space)

lemma hd_nested: "hd line_nested = CHR ''[''"
  by (simp add: line_nested_def)

lemma not_nested:
  "line_a \<noteq> line_nested" "line_b \<noteq> line_nested" "line_c \<noteq> line_nested"
  "line_tenth \<noteq> line_nested" "line_fifth \<noteq> line_nested" "line_three_tenths \<noteq> line_nested"
  by (rule notI, drule arg_cong [where f = hd],
      simp add: hd_nested line_a_def line_b_def line_c_def line_tenth_def line_fifth_def
        line_three_tenths_def)+

lemma example_nonempty:
  "line_a \<noteq> []" "line_b \<noteq> []" "line_c \<noteq> []"
  "line_tenth \<noteq> []" "line_fifth \<noteq> []" "line_three_tenths \<noteq> []" "line_nested \<noteq> []"
  by (simp_all add: line_a_def line_b_def line_c_def line_tenth_def line_fifth_def
      line_three_tenths_def line_nested_def)

lemma example_decodes:
  "example_loads line_a
     = Decoded (message_entry ''assistant'' [(''inputTokens'', JInt 10), (''outputTokens'', JInt 5)])"
  "example_loads line_b
     = Decoded (message_entry ''assistant''
         [(''inputTokens'', JInt 3), (''outputTokens'', JInt 2), (''cacheReadTokens'', JInt 1)])"
  "example_loads line_c
     = Decoded (message_entry ''user'' [(''inputTokens'', JInt 100), (''outputTokens'', JInt 50)])"
  "example_loads line_tenth
     = Decoded (message_entry ''assistant'' [(''inputTokens'', JFloat (Finite 3602879701896397 (- 55)))])"
  "example_loads line_fifth
     = Decoded (message_entry ''assistant'' [(''inputTokens'', JFloat (Finite 3602879701896397 (- 54)))])"
  "example_loads line_three_tenths
     = Decoded (message_entry ''assistant'' [(''inputTokens'', JFloat (Finite 5404319552844595 (- 54)))])"
  "example_loads line_nested = DecoderRaised ''RecursionError''"
  unfolding example_loads_def example_table_def
  using not_nested
  by (simp_all, simp_all add: line_a_def line_b_def line_c_def line_tenth_def line_fifth_def
      line_three_tenths_def)

text \<open>The loop and the spec's words.\<close>

lemma scan_entry_kept:
  "spec_entry_usage entry = Some u \<Longrightarrow> scan_entry ops t entry = add_usage ops t (JObj u)"
  by (cases entry)
     (auto simp: spec_entry_usage_def scan_entry_def split: option.splits json.splits if_splits)

lemma scan_entry_other:
  "spec_entry_usage entry = None \<Longrightarrow>
     (\<exists>x. \<forall>t. scan_entry ops t entry = Inl x) \<or> (\<forall>t. scan_entry ops t entry = Inr t)"
  by (cases entry)
     (auto simp: spec_entry_usage_def scan_entry_def add_usage_def
        split: option.splits json.splits if_splits)

lemma scan_line_kept:
  "spec_line_usage loads l = Some u \<Longrightarrow> scan_line ops loads t l = add_usage ops t (JObj u)"
  by (auto simp: spec_line_usage_def scan_line_def Let_def scan_entry_kept
      split: if_splits decoded.splits)

lemma scan_line_other:
  assumes "spec_line_usage loads l = None"
  shows "(\<exists>x. \<forall>t. scan_line ops loads t l = Inl x) \<or> (\<forall>t. scan_line ops loads t l = Inr t)"
proof (cases "strip l = []")
  case True
  then show ?thesis by (simp add: scan_line_def)
next
  case False
  show ?thesis
  proof (cases "loads (strip l)")
    case (Decoded entry)
    with False assms have "spec_entry_usage entry = None" by (simp add: spec_line_usage_def)
    from scan_entry_other [OF this, of ops] False Decoded show ?thesis
      by (simp add: scan_line_def)
  next
    case JSONDecodeError
    with False show ?thesis by (simp add: scan_line_def)
  next
    case (DecoderRaised x)
    with False show ?thesis by (simp add: scan_line_def)
  qed
qed

lemma add_usage_cache:
  assumes "add_usage ops t (JObj u) = Inr t'"
  shows "sum_counts ops (total_cache t)
           [count_of u ''cacheReadTokens'', count_of u ''cacheWriteTokens''] = Inr (total_cache t')"
  using assms
  by (auto simp: add_usage_def count_of_def and_then_def split: sum.splits)

lemma scan_line_cache:
  assumes "scan_line ops loads t l = Inr t'"
  shows "sum_counts ops (total_cache t) (usage_cache_counts (spec_line_usage loads l))
           = Inr (total_cache t')"
proof (cases "spec_line_usage loads l")
  case None
  with scan_line_other [OF None, of ops] assms show ?thesis
    by (auto simp: usage_cache_counts_def)
next
  case (Some u)
  with assms have "add_usage ops t (JObj u) = Inr t'" by (simp add: scan_line_kept)
  from add_usage_cache [OF this] Some show ?thesis by (simp add: usage_cache_counts_def)
qed

lemma sum_counts_append:
  "sum_counts ops n (xs @ ys) = and_then (sum_counts ops n xs) (\<lambda>n'. sum_counts ops n' ys)"
proof (induction xs arbitrary: n)
  case Nil
  show ?case by simp
next
  case (Cons x xs)
  then show ?case by (cases "add_tokens ops n x") simp_all
qed

lemma scan_lines_cache:
  "scan_lines ops loads t ls = Inr t' \<Longrightarrow>
     sum_counts ops (total_cache t) (spec_cache_counts loads ls) = Inr (total_cache t')"
proof (induction ls arbitrary: t)
  case Nil
  then show ?case by (simp add: spec_cache_counts_def)
next
  case (Cons l ls)
  from Cons.prems obtain t1 where 1: "scan_line ops loads t l = Inr t1"
    and 2: "scan_lines ops loads t1 ls = Inr t'"
    by (cases "scan_line ops loads t l") simp_all
  have "spec_cache_counts loads (l # ls)
      = usage_cache_counts (spec_line_usage loads l) @ spec_cache_counts loads ls"
    by (simp add: spec_cache_counts_def)
  with scan_line_cache [OF 1] Cons.IH [OF 2] show ?case by (simp add: sum_counts_append)
qed

lemma scan_lines_append:
  "scan_lines ops loads t (xs @ ys)
     = and_then (scan_lines ops loads t xs) (\<lambda>t'. scan_lines ops loads t' ys)"
proof (induction xs arbitrary: t)
  case Nil
  show ?case by simp
next
  case (Cons x xs)
  then show ?case by (cases "scan_line ops loads t x") simp_all
qed

lemma scan_files_append:
  "scan_files ops loads t (fs @ gs)
     = and_then (scan_files ops loads t fs) (\<lambda>t'. scan_files ops loads t' gs)"
proof (induction fs arbitrary: t)
  case Nil
  show ?case by simp
next
  case (Cons f fs)
  then show ?case by (cases "scan_file ops loads t f") simp_all
qed

lemma scan_files_Inr_iff:
  "scan_files ops loads t fs = Inr r \<longleftrightarrow>
     (\<forall>f \<in> set fs. snd f = None) \<and> scan_lines ops loads t (concat (map fst fs)) = Inr r"
proof (induction fs arbitrary: t)
  case Nil
  show ?case by simp
next
  case (Cons f fs)
  obtain ls raised where f: "f = (ls, raised)" by (cases f)
  show ?case
  proof (cases "scan_lines ops loads t ls")
    case (Inl e)
    then show ?thesis by (simp add: f scan_lines_append)
  next
    case (Inr t1)
    with Cons.IH [of t1] show ?thesis
      by (cases raised) (simp_all add: f scan_lines_append)
  qed
qed

lemma populate_Some:
  "populate_context_post_run ops loads (Some dir) context = Inr c \<longleftrightarrow>
     (\<forall>f \<in> set (glob_jsonl dir). snd f = None) \<and>
     (\<exists>t. scan_lines ops loads zero_totals (session_lines dir) = Inr t \<and> c = report ops context t)"
proof -
  have "populate_context_post_run ops loads (Some dir) context = Inr c \<longleftrightarrow>
     (\<exists>t. scan_files ops loads zero_totals (glob_jsonl dir) = Inr t \<and> c = report ops context t)"
    by (cases "scan_files ops loads zero_totals (glob_jsonl dir)")
       (auto simp: populate_context_post_run_def)
  then show ?thesis by (auto simp: scan_files_Inr_iff session_lines_def)
qed

text \<open>Lines with integer counts, scanned from integer totals.\<close>

lemma add_tokens_int:
  "\<not> is_float v \<Longrightarrow>
     (\<exists>x. \<forall>n. add_tokens ops (PInt n) v = Inl x) \<or>
     (\<exists>d. \<forall>n. add_tokens ops (PInt n) v = Inr (PInt (n + d)))"
  by (cases v) (auto simp: is_float_def)

lemma add_usage_int:
  assumes "integer_usage u"
  shows "(\<exists>x. \<forall>a b c. add_usage ops (int_totals a b c) (JObj u) = Inl x) \<or>
         (\<exists>i j k. \<forall>a b c. add_usage ops (int_totals a b c) (JObj u)
                              = Inr (int_totals (a + i) (b + j) (c + k)))"
proof -
  let ?v1 = "count_of u ''inputTokens''" and ?v2 = "count_of u ''outputTokens''"
  let ?v3 = "count_of u ''cacheReadTokens''" and ?v4 = "count_of u ''cacheWriteTokens''"
  have u: "add_usage ops \<lparr>total_input = PInt a, total_output = PInt b, total_cache = PInt c\<rparr>
       (JObj u) =
     and_then (add_tokens ops (PInt a) ?v1) (\<lambda>ti.
     and_then (add_tokens ops (PInt b) ?v2) (\<lambda>to.
     and_then (add_tokens ops (PInt c) ?v3) (\<lambda>tc.
     and_then (add_tokens ops tc ?v4) (\<lambda>tc'.
     Inr \<lparr>total_input = ti, total_output = to, total_cache = tc'\<rparr>))))" for a b c
    by (simp add: add_usage_def count_of_def)
  from assms have f: "\<not> is_float ?v1" "\<not> is_float ?v2" "\<not> is_float ?v3" "\<not> is_float ?v4"
    by (simp_all add: integer_usage_def)
  from add_tokens_int [OF f(1), of ops] show ?thesis
  proof (elim disjE exE)
    fix x
    assume "\<forall>n. add_tokens ops (PInt n) ?v1 = Inl x"
    then have "\<forall>a b c. add_usage ops (int_totals a b c) (JObj u) = Inl x"
      by (simp add: u int_totals_def)
    then show ?thesis by blast
  next
    fix d1
    assume 1: "\<forall>n. add_tokens ops (PInt n) ?v1 = Inr (PInt (n + d1))"
    from add_tokens_int [OF f(2), of ops] show ?thesis
    proof (elim disjE exE)
      fix x
      assume "\<forall>n. add_tokens ops (PInt n) ?v2 = Inl x"
      with 1 have "\<forall>a b c. add_usage ops (int_totals a b c) (JObj u) = Inl x"
        by (simp add: u int_totals_def)
      then show ?thesis by blast
    next
      fix d2
      assume 2: "\<forall>n. add_tokens ops (PInt n) ?v2 = Inr (PInt (n + d2))"
      from add_tokens_int [OF f(3), of ops] show ?thesis
      proof (elim disjE exE)
        fix x
        assume "\<forall>n. add_tokens ops (PInt n) ?v3 = Inl x"
        with 1 2 have "\<forall>a b c. add_usage ops (int_totals a b c) (JObj u) = Inl x"
          by (simp add: u int_totals_def)
        then show ?thesis by blast
      next
        fix d3
        assume 3: "\<forall>n. add_tokens ops (PInt n) ?v3 = Inr (PInt (n + d3))"
        from add_tokens_int [OF f(4), of ops] show ?thesis
        proof (elim disjE exE)
          fix x
          assume "\<forall>n. add_tokens ops (PInt n) ?v4 = Inl x"
          with 1 2 3 have "\<forall>a b c. add_usage ops (int_totals a b c) (JObj u) = Inl x"
            by (simp add: u int_totals_def)
          then show ?thesis by blast
        next
          fix d4
          assume "\<forall>n. add_tokens ops (PInt n) ?v4 = Inr (PInt (n + d4))"
          with 1 2 3 have "\<forall>a b c. add_usage ops (int_totals a b c) (JObj u)
              = Inr (int_totals (a + d1) (b + d2) (c + (d3 + d4)))"
            by (simp add: u int_totals_def add.assoc)
          then show ?thesis by blast
        qed
      qed
    qed
  qed
qed

lemma scan_line_int:
  assumes "integer_line loads l"
  shows "(\<exists>x. \<forall>a b c. scan_line ops loads (int_totals a b c) l = Inl x) \<or>
         (\<exists>i j k. \<forall>a b c. scan_line ops loads (int_totals a b c) l
                              = Inr (int_totals (a + i) (b + j) (c + k)))"
proof (cases "spec_line_usage loads l")
  case None
  from scan_line_other [OF None, of ops] show ?thesis
  proof
    assume "\<exists>x. \<forall>t. scan_line ops loads t l = Inl x"
    then show ?thesis by blast
  next
    assume "\<forall>t. scan_line ops loads t l = Inr t"
    then have "\<forall>a b c. scan_line ops loads (int_totals a b c) l
        = Inr (int_totals (a + 0) (b + 0) (c + 0))"
      by simp
    then show ?thesis by blast
  qed
next
  case (Some u)
  with assms have "integer_usage u" by (simp add: integer_line_def)
  from add_usage_int [OF this, of ops] show ?thesis
    by (simp add: scan_line_kept [OF Some])
qed

lemma zero_totals_int: "zero_totals = int_totals 0 0 0"
  by (simp add: zero_totals_def int_totals_def)

lemma int_totals_inject [simp]:
  "int_totals a b c = int_totals a' b' c' \<longleftrightarrow> a = a' \<and> b = b' \<and> c = c'"
  by (simp add: int_totals_def)

lemma scan_line_int_shift:
  assumes "integer_line loads l"
  shows "scan_line ops loads (int_totals a b c) l =
     (case scan_line ops loads zero_totals l of
        Inl x \<Rightarrow> Inl x
      | Inr d \<Rightarrow>
          (case line_ints ops loads l of
             (i, j, k) \<Rightarrow> Inr (int_totals (a + i) (b + j) (c + k))))"
  using scan_line_int [OF assms, of ops]
proof (elim disjE exE)
  fix x
  assume "\<forall>a b c. scan_line ops loads (int_totals a b c) l = Inl x"
  then show ?thesis by (simp add: zero_totals_int)
next
  fix i j k
  assume h: "\<forall>a b c. scan_line ops loads (int_totals a b c) l
      = Inr (int_totals (a + i) (b + j) (c + k))"
  then have z: "scan_line ops loads zero_totals l = Inr (int_totals i j k)"
    by (simp add: zero_totals_int)
  then have "line_ints ops loads l = (i, j, k)"
    by (simp add: line_ints_def int_totals_def)
  with h z show ?thesis by simp
qed

lemma scan_lines_int_iff:
  assumes "\<forall>l \<in> set ls. integer_line loads l"
  shows "scan_lines ops loads (int_totals a b c) ls = Inr r \<longleftrightarrow>
     (\<forall>l \<in> set ls. \<exists>d. scan_line ops loads zero_totals l = Inr d) \<and>
     r = int_totals (a + sum_list (map (\<lambda>l. fst (line_ints ops loads l)) ls))
           (b + sum_list (map (\<lambda>l. fst (snd (line_ints ops loads l))) ls))
           (c + sum_list (map (\<lambda>l. snd (snd (line_ints ops loads l))) ls))"
  using assms
proof (induction ls arbitrary: a b c)
  case Nil
  show ?case by auto
next
  case (Cons l ls)
  from Cons.prems have l: "integer_line loads l" and ls: "\<forall>l \<in> set ls. integer_line loads l"
    by simp_all
  obtain i j k where ints: "line_ints ops loads l = (i, j, k)"
    by (cases "line_ints ops loads l")
  show ?case
  proof (cases "scan_line ops loads zero_totals l")
    case (Inl x)
    with scan_line_int_shift [OF l, of ops a b c] show ?thesis by simp
  next
    case (Inr d)
    with scan_line_int_shift [OF l, of ops a b c] ints
    have "scan_line ops loads (int_totals a b c) l = Inr (int_totals (a + i) (b + j) (c + k))"
      by simp
    with Cons.IH [OF ls, of "a + i" "b + j" "c + k"] Inr ints show ?thesis
      by (simp add: add.assoc)
  qed
qed

lemma sum_list_mset_cong:
  fixes xs ys :: "'a :: comm_monoid_add list"
  assumes "mset xs = mset ys"
  shows "sum_list xs = sum_list ys"
proof -
  have "sum_list xs = sum_mset (mset xs)" by (simp only: sum_mset_sum_list)
  also have "\<dots> = sum_mset (mset ys)" by (simp only: assms)
  also have "\<dots> = sum_list ys" by (simp only: sum_mset_sum_list)
  finally show ?thesis .
qed

lemma scan_lines_int_mset:
  assumes "mset ls' = mset ls" and "\<forall>l \<in> set ls. integer_line loads l"
  shows "scan_lines ops loads (int_totals a b c) ls' = Inr r
           \<longleftrightarrow> scan_lines ops loads (int_totals a b c) ls = Inr r"
proof -
  from assms(1) have s: "set ls' = set ls" by (rule mset_eq_setD)
  with assms(2) have i: "\<forall>l \<in> set ls'. integer_line loads l" by simp
  have "sum_list (map g ls') = sum_list (map g ls)" for g :: "string \<Rightarrow> int"
    using assms(1) by (intro sum_list_mset_cong) simp
  with s show ?thesis
    by (simp add: scan_lines_int_iff [OF assms(2)] scan_lines_int_iff [OF i])
qed

lemma mset_session_lines:
  assumes "mset dir' = mset dir"
  shows "mset (session_lines dir') = mset (session_lines dir)"
proof -
  have "mset (map (\<lambda>f. mset (fst f)) (glob_jsonl dir'))
      = mset (map (\<lambda>f. mset (fst f)) (glob_jsonl dir))"
    using assms by (simp add: glob_jsonl_def)
  then have "sum_list (map (\<lambda>f. mset (fst f)) (glob_jsonl dir'))
      = sum_list (map (\<lambda>f. mset (fst f)) (glob_jsonl dir))"
    by (rule sum_list_mset_cong)
  then show ?thesis by (simp add: session_lines_def mset_concat comp_def)
qed

lemma set_glob_mset:
  assumes "mset dir' = mset dir"
  shows "set (glob_jsonl dir') = set (glob_jsonl dir)"
proof -
  have "mset (glob_jsonl dir') = mset (glob_jsonl dir)"
    using assms by (simp add: glob_jsonl_def)
  then show ?thesis by (rule mset_eq_setD)
qed

lemma report_idem: "report ops (report ops context t) t = report ops context t"
  by (simp add: report_def)

lemma glob_jsonl_Nil [simp]: "glob_jsonl [] = []"
  by (simp add: glob_jsonl_def)

lemma glob_jsonl_append: "glob_jsonl (d1 @ d2) = glob_jsonl d1 @ glob_jsonl d2"
  by (simp add: glob_jsonl_def)

lemma glob_jsonl_Cons:
  "glob_jsonl ((name, f) # d) = (if suffix ''.jsonl'' name then f # glob_jsonl d else glob_jsonl d)"
  by (simp add: glob_jsonl_def)

lemma undecodable_line_skipped:
  "loads (strip bad) = JSONDecodeError \<Longrightarrow> scan_line ops loads t bad = Inr t"
  by (simp add: scan_line_def Let_def)

lemma scan_lines_drop_line:
  assumes "\<And>t. scan_line ops loads t bad = Inr t"
  shows "scan_lines ops loads t (xs @ bad # ys) = scan_lines ops loads t (xs @ ys)"
  by (cases "scan_lines ops loads t xs") (simp_all add: scan_lines_append assms)

text \<open>The example lines, scanned.\<close>

lemma example_usages:
  "spec_line_usage example_loads line_a = Some [(''inputTokens'', JInt 10), (''outputTokens'', JInt 5)]"
  "spec_line_usage example_loads line_b
     = Some [(''inputTokens'', JInt 3), (''outputTokens'', JInt 2), (''cacheReadTokens'', JInt 1)]"
  "spec_line_usage example_loads line_c = None"
  "spec_line_usage example_loads line_tenth
     = Some [(''inputTokens'', JFloat (Finite 3602879701896397 (- 55)))]"
  "spec_line_usage example_loads line_fifth
     = Some [(''inputTokens'', JFloat (Finite 3602879701896397 (- 54)))]"
  "spec_line_usage example_loads line_three_tenths
     = Some [(''inputTokens'', JFloat (Finite 5404319552844595 (- 54)))]"
  by (simp_all add: spec_line_usage_def example_strips example_nonempty example_decodes
      spec_entry_usage_def message_entry_def)

lemma scan_integer_examples:
  "scan_line ops example_loads \<lparr>total_input = PInt a, total_output = PInt b, total_cache = PInt c\<rparr>
     line_a = Inr \<lparr>total_input = PInt (a + 10), total_output = PInt (b + 5), total_cache = PInt c\<rparr>"
  "scan_line ops example_loads \<lparr>total_input = PInt a, total_output = PInt b, total_cache = PInt c\<rparr>
     line_b = Inr \<lparr>total_input = PInt (a + 3), total_output = PInt (b + 2),
                    total_cache = PInt (c + 1)\<rparr>"
  by (simp_all add: scan_line_kept example_usages add_usage_def)

lemma scan_other_role_example: "scan_line ops example_loads t line_c = Inr t"
  by (simp add: scan_line_def example_strips example_nonempty example_decodes scan_entry_def
      message_entry_def)

lemma scan_nested_example:
  "scan_line ops example_loads t line_nested = Inl (Uncaught ''RecursionError'')"
  by (simp add: scan_line_def strip_nested example_nonempty example_decodes)

lemma scan_float_examples:
  "scan_line ops example_loads \<lparr>total_input = n, total_output = PInt b, total_cache = PInt c\<rparr>
     line_tenth
   = and_then (py_add ops n (PFloat (Finite 3602879701896397 (- 55))))
       (\<lambda>ti. Inr \<lparr>total_input = ti, total_output = PInt b, total_cache = PInt c\<rparr>)"
  "scan_line ops example_loads \<lparr>total_input = n, total_output = PInt b, total_cache = PInt c\<rparr>
     line_fifth
   = and_then (py_add ops n (PFloat (Finite 3602879701896397 (- 54))))
       (\<lambda>ti. Inr \<lparr>total_input = ti, total_output = PInt b, total_cache = PInt c\<rparr>)"
  "scan_line ops example_loads \<lparr>total_input = n, total_output = PInt b, total_cache = PInt c\<rparr>
     line_three_tenths
   = and_then (py_add ops n (PFloat (Finite 5404319552844595 (- 54))))
       (\<lambda>ti. Inr \<lparr>total_input = ti, total_output = PInt b, total_cache = PInt c\<rparr>)"
  by (simp_all add: scan_line_kept example_usages add_usage_def)

lemma jsonl_names:
  "suffix ''.jsonl'' ''a.jsonl''" "suffix ''.jsonl'' ''b.jsonl''" "suffix ''.jsonl'' ''c.jsonl''"
  "suffix ''.jsonl'' ''run1.jsonl''" "\<not> suffix ''.jsonl'' ''notes.txt''"
  by code_simp+

lemma float_sums:
  "b64_of_int 0 = Some (Finite 0 0)"
  "b64_add (Finite 0 0) (Finite 3602879701896397 (- 55)) = Finite 3602879701896397 (- 55)"
  "b64_add (Finite 3602879701896397 (- 55)) (Finite 3602879701896397 (- 54))
     = Finite 1351079888211149 (- 52)"
  "b64_add (Finite 1351079888211149 (- 52)) (Finite 5404319552844595 (- 54))
     = Finite 1351079888211149 (- 51)"
  "b64_add (Finite 0 0) (Finite 5404319552844595 (- 54)) = Finite 5404319552844595 (- 54)"
  "b64_add (Finite 5404319552844595 (- 54)) (Finite 3602879701896397 (- 54)) = Finite 1 (- 1)"
  "b64_add (Finite 1 (- 1)) (Finite 3602879701896397 (- 55)) = Finite 5404319552844595 (- 53)"
  by code_simp+

lemma assistant_entry_usage: "spec_entry_usage (message_entry ''assistant'' usage) = Some usage"
  by (simp add: spec_entry_usage_def message_entry_def)

lemma other_role_entry_usage:
  "role \<noteq> ''assistant'' \<Longrightarrow> spec_entry_usage (message_entry role usage) = None"
  by (simp add: spec_entry_usage_def message_entry_def)

lemma other_role_entry_skipped:
  "role \<noteq> ''assistant'' \<Longrightarrow> scan_entry ops t (message_entry role usage) = Inr t"
  by (simp add: scan_entry_def message_entry_def)

lemma decoded_line_usage:
  "strip l \<noteq> [] \<Longrightarrow> loads (strip l) = Decoded entry \<Longrightarrow>
     spec_line_usage loads l = spec_entry_usage entry"
  by (simp add: spec_line_usage_def)

text \<open>
  Claim C1, as stated, fails where the sessions directory does not exist: the source
  returns at line 104 before any assignment, so a context whose three fields are unset
  keeps them unset, and its input-token total is not 0.
\<close>

theorem missing_dir_sets_nothing_counterexample:
  "populate_context_post_run binary64_ops example_loads None
      \<lparr>n_input_tokens = None, n_cache_tokens = None, n_output_tokens = None\<rparr>
   \<noteq> Inr \<lparr>n_input_tokens = Some (PInt 0), n_cache_tokens = None, n_output_tokens = Some (PInt 0)\<rparr>"
  by (simp add: populate_context_post_run_def)

text \<open>
  Claim C1, amended. When the sessions directory does not exist, the context is returned
  as it was. When it exists and holds no file whose name ends in \<open>.jsonl\<close> (an empty
  directory among them), the input and output totals are set to 0 and the cache total
  to absent; the decoder is never asked.
\<close>

theorem missing_or_empty_dir:
  "populate_context_post_run ops loads None context = Inr context
   \<and> (glob_jsonl dir = [] \<longrightarrow>
        populate_context_post_run ops loads (Some dir) context
          = Inr (context\<lparr>n_input_tokens := Some (PInt 0), n_output_tokens := Some (PInt 0),
                         n_cache_tokens := None\<rparr>))"
  by (simp add: populate_context_post_run_def report_def zero_totals_def)

theorem missing_or_empty_dir_witness:
  "populate_context_post_run binary64_ops example_loads (Some [])
      \<lparr>n_input_tokens = Some (PInt 7), n_cache_tokens = Some (PInt 3), n_output_tokens = None\<rparr>
     = Inr \<lparr>n_input_tokens = Some (PInt 0), n_cache_tokens = None, n_output_tokens = Some (PInt 0)\<rparr>
   \<and> populate_context_post_run binary64_ops example_loads
        (Some [(''notes.txt'', ([''hello''], None))])
      \<lparr>n_input_tokens = None, n_cache_tokens = None, n_output_tokens = None\<rparr>
     = Inr \<lparr>n_input_tokens = Some (PInt 0), n_cache_tokens = None, n_output_tokens = Some (PInt 0)\<rparr>"
proof -
  have g: "glob_jsonl [(''notes.txt'', ([''hello''], None))] = []"
    by (simp add: glob_jsonl_Cons jsonl_names)
  from missing_or_empty_dir [of binary64_ops example_loads
      "\<lparr>n_input_tokens = Some (PInt 7), n_cache_tokens = Some (PInt 3), n_output_tokens = None\<rparr>"
      "[]"]
    missing_or_empty_dir [of binary64_ops example_loads
      "\<lparr>n_input_tokens = None, n_cache_tokens = None, n_output_tokens = None\<rparr>"
      "[(''notes.txt'', ([''hello''], None))]"]
    g
  show ?thesis by simp
qed

text \<open>
  Claim C6. A sessions directory with one \<open>.jsonl\<close> file of three lines, in any order:
  an assistant message with usage \<open>{inputTokens: 10, outputTokens: 5}\<close>, an assistant
  message with usage \<open>{inputTokens: 3, outputTokens: 2, cacheReadTokens: 1}\<close>, and a
  message of any other role with any usage, gives input 13, output 7 and cache 1. For
  every directory on which the aggregation returns, with integer or float counts, the
  sum of the cache-read and cache-write counts of the contributing lines, as the spec's
  words define it on the decoded lines, exists, and the cache total reported is that sum
  when it is greater than zero, and absent otherwise.
\<close>

theorem example_totals_and_cache_rule:
  assumes "suffix ''.jsonl'' name"
    and "mset ls = {#l1, l2, l3#}"
    and "strip l1 \<noteq> []"
    and "loads (strip l1)
           = Decoded (message_entry ''assistant''
               [(''inputTokens'', JInt 10), (''outputTokens'', JInt 5)])"
    and "strip l2 \<noteq> []"
    and "loads (strip l2)
           = Decoded (message_entry ''assistant''
               [(''inputTokens'', JInt 3), (''outputTokens'', JInt 2), (''cacheReadTokens'', JInt 1)])"
    and "strip l3 \<noteq> []"
    and "role \<noteq> ''assistant''"
    and "loads (strip l3) = Decoded (message_entry role usage)"
  shows "populate_context_post_run ops loads (Some [(name, (ls, None))]) context
           = Inr (context\<lparr>n_input_tokens := Some (PInt 13), n_output_tokens := Some (PInt 7),
                           n_cache_tokens := Some (PInt 1)\<rparr>)
       \<and> (\<forall>dir c. populate_context_post_run ops loads (Some dir) context = Inr c \<longrightarrow>
             (\<exists>s. sum_counts ops (PInt 0) (spec_cache_counts loads (session_lines dir)) = Inr s
                \<and> n_cache_tokens c = (if gt_zero ops s then Some s else None)))"
proof -
  have u1: "spec_line_usage loads l1 = Some [(''inputTokens'', JInt 10), (''outputTokens'', JInt 5)]"
    using assms(3,4) by (simp add: decoded_line_usage assistant_entry_usage)
  have u2: "spec_line_usage loads l2
      = Some [(''inputTokens'', JInt 3), (''outputTokens'', JInt 2), (''cacheReadTokens'', JInt 1)]"
    using assms(5,6) by (simp add: decoded_line_usage assistant_entry_usage)
  have u3: "spec_line_usage loads l3 = None"
    using assms(7,8,9) by (simp add: decoded_line_usage other_role_entry_usage)
  have ints: "\<forall>l \<in> set [l1, l2, l3]. integer_line loads l"
    by (simp add: integer_line_def u1 u2 u3 integer_usage_def count_of_def is_float_def)
  have 1: "scan_line ops loads (int_totals 0 0 0) l1 = Inr (int_totals 10 5 0)"
    by (simp add: scan_line_kept [OF u1] add_usage_def int_totals_def)
  have 2: "scan_line ops loads (int_totals 10 5 0) l2 = Inr (int_totals 13 7 1)"
    by (simp add: scan_line_kept [OF u2] add_usage_def int_totals_def)
  have 3: "scan_line ops loads (int_totals 13 7 1) l3 = Inr (int_totals 13 7 1)"
    using assms(7,8,9) by (simp add: scan_line_def other_role_entry_skipped)
  have "scan_lines ops loads (int_totals 0 0 0) [l1, l2, l3] = Inr (int_totals 13 7 1)"
    by (simp add: 1 2 3)
  moreover have "mset ls = mset [l1, l2, l3]" using assms(2) by simp
  ultimately have "scan_lines ops loads zero_totals ls = Inr (int_totals 13 7 1)"
    using scan_lines_int_mset [OF _ ints, of ls ops 0 0 0 "int_totals 13 7 1"]
    by (simp add: zero_totals_int)
  then have ex: "populate_context_post_run ops loads (Some [(name, (ls, None))]) context
      = Inr (report ops context (int_totals 13 7 1))"
    using assms(1) by (simp add: populate_context_post_run_def glob_jsonl_Cons)
  have gen: "\<exists>s. sum_counts ops (PInt 0) (spec_cache_counts loads (session_lines dir)) = Inr s
                \<and> n_cache_tokens c = (if gt_zero ops s then Some s else None)"
    if "populate_context_post_run ops loads (Some dir) context = Inr c" for dir c
  proof -
    from that obtain t where t: "scan_lines ops loads zero_totals (session_lines dir) = Inr t"
      and c: "c = report ops context t"
      by (auto simp: populate_Some)
    from scan_lines_cache [OF t]
    have "sum_counts ops (PInt 0) (spec_cache_counts loads (session_lines dir))
        = Inr (total_cache t)"
      by (simp add: zero_totals_def)
    with c show ?thesis by (simp add: report_def)
  qed
  from ex gen show ?thesis by (simp add: report_def int_totals_def)
qed

theorem example_totals_and_cache_rule_witness:
  "populate_context_post_run binary64_ops example_loads
      (Some [(''run1.jsonl'', ([line_c, line_a, line_b], None))]) unset_context
     = Inr \<lparr>n_input_tokens = Some (PInt 13), n_cache_tokens = Some (PInt 1),
            n_output_tokens = Some (PInt 7)\<rparr>
   \<and> sum_counts binary64_ops (PInt 0)
       (spec_cache_counts example_loads
          (session_lines [(''run1.jsonl'', ([line_c, line_a, line_b], None))]))
     = Inr (PInt 1)"
proof -
  have m: "mset [line_c, line_a, line_b] = {#line_a, line_b, line_c#}" by simp
  have u: "''user'' \<noteq> ''assistant''" by simp
  have s: "sum_counts binary64_ops (PInt 0)
       (spec_cache_counts example_loads
          (session_lines [(''run1.jsonl'', ([line_c, line_a, line_b], None))]))
     = Inr (PInt 1)"
    by (simp add: session_lines_def glob_jsonl_Cons jsonl_names spec_cache_counts_def
        example_usages usage_cache_counts_def count_of_def)
  from example_totals_and_cache_rule [of "''run1.jsonl''" "[line_c, line_a, line_b]" line_a line_b line_c example_loads
      "''user''" "[(''inputTokens'', JInt 100), (''outputTokens'', JInt 50)]" binary64_ops
      unset_context]
    m u s jsonl_names example_strips example_nonempty example_decodes
  show ?thesis by (simp add: unset_context_def)
qed

text \<open>
  Claim C7, as stated, fails for a line on which \<open>json.loads\<close> raises an exception
  other than \<open>JSONDecodeError\<close>: 100000 opening brackets make it raise
  \<open>RecursionError\<close>, which line 118 does not catch. Between two valid lines, such a
  line ends the aggregation with that exception, where the two valid lines alone give
  13, 7 and 1.
\<close>

theorem uncaught_decoder_exception_counterexample:
  "populate_context_post_run binary64_ops example_loads
      (Some [(''run1.jsonl'', ([line_a, line_nested, line_b], None))]) unset_context
     = Inl (Uncaught ''RecursionError'')
   \<and> populate_context_post_run binary64_ops example_loads
      (Some [(''run1.jsonl'', ([line_a, line_b], None))]) unset_context
     = Inr \<lparr>n_input_tokens = Some (PInt 13), n_cache_tokens = Some (PInt 1),
            n_output_tokens = Some (PInt 7)\<rparr>"
  by (simp add: populate_context_post_run_def glob_jsonl_Cons jsonl_names zero_totals_def
      scan_integer_examples scan_nested_example report_def unset_context_def)

text \<open>
  Claim C7, amended. A line on which the decoder raises \<open>JSONDecodeError\<close>, anywhere in
  a file (between two valid lines among others), changes nothing: the aggregation over
  the directory gives what it gives with that line removed, totals and exceptions alike.
\<close>

theorem malformed_line_is_skipped:
  assumes "loads (strip bad) = JSONDecodeError"
  shows "populate_context_post_run ops loads
           (Some (before @ (name, (xs @ bad # ys, raised)) # after)) context
       = populate_context_post_run ops loads
           (Some (before @ (name, (xs @ ys, raised)) # after)) context"
proof -
  have skip: "\<And>t. scan_line ops loads t bad = Inr t"
    using assms by (rule undecodable_line_skipped)
  have "scan_file ops loads t (xs @ bad # ys, raised) = scan_file ops loads t (xs @ ys, raised)"
    for t
    using scan_lines_drop_line [of ops loads bad t xs ys] skip by simp
  then have "scan_files ops loads zero_totals
               (glob_jsonl (before @ (name, (xs @ bad # ys, raised)) # after))
           = scan_files ops loads zero_totals
               (glob_jsonl (before @ (name, (xs @ ys, raised)) # after))"
    by (simp add: glob_jsonl_append glob_jsonl_Cons scan_files_append)
  then show ?thesis by (simp add: populate_context_post_run_def)
qed

theorem malformed_line_is_skipped_witness:
  "populate_context_post_run binary64_ops example_loads
      (Some [(''run1.jsonl'', ([line_a, ''{not json'', line_b], None))]) unset_context
   = populate_context_post_run binary64_ops example_loads
      (Some [(''run1.jsonl'', ([line_a, line_b], None))]) unset_context"
proof -
  have s: "strip ''{not json'' = ''{not json''"
    by (rule strip_fixed) (simp_all add: py_isspace_def)
  have n: "''{not json'' \<noteq> line_nested"
    by (rule notI, drule arg_cong [where f = hd], simp add: hd_nested)
  have h: "example_loads (strip ''{not json'') = JSONDecodeError"
    using n
    by (simp add: s example_loads_def example_table_def line_a_def line_b_def line_c_def
        line_tenth_def line_fifth_def line_three_tenths_def)
  from h malformed_line_is_skipped [of example_loads "''{not json''" binary64_ops "[]" "''run1.jsonl''" "[line_a]"
      "[line_b]" None "[]" unset_context]
  show ?thesis by simp
qed

text \<open>
  Claim C8, as stated, fails for counts that are floats: three files with the input
  counts 0.1, 0.2 and 0.3 give the input total 0.6000000000000001 when read in this
  order and 0.6 when read in the opposite order, binary64 addition not being associative.
\<close>

theorem float_sums_depend_on_order_counterexample:
  "populate_context_post_run binary64_ops example_loads
      (Some [(''a.jsonl'', ([line_tenth], None)), (''b.jsonl'', ([line_fifth], None)),
             (''c.jsonl'', ([line_three_tenths], None))])
      unset_context
     = Inr \<lparr>n_input_tokens = Some (PFloat (Finite 1351079888211149 (- 51))),
            n_cache_tokens = None, n_output_tokens = Some (PInt 0)\<rparr>
   \<and> populate_context_post_run binary64_ops example_loads
      (Some [(''c.jsonl'', ([line_three_tenths], None)), (''b.jsonl'', ([line_fifth], None)),
             (''a.jsonl'', ([line_tenth], None))])
      unset_context
     = Inr \<lparr>n_input_tokens = Some (PFloat (Finite 5404319552844595 (- 53))),
            n_cache_tokens = None, n_output_tokens = Some (PInt 0)\<rparr>"
  by (simp add: populate_context_post_run_def glob_jsonl_Cons jsonl_names zero_totals_def
      scan_float_examples binary64_ops_def float_sums report_def unset_context_def
      del: b64_add.simps)

text \<open>
  Claim C8, amended. When no count of a contributing line is a float, listing the files
  of the sessions directory in another order gives the same context: the aggregation
  returns a context for one order exactly when it returns that same context for the
  other. Running the aggregation again on the same directory, from the context the first
  run returned, returns that context unchanged, whatever the counts are.
\<close>

theorem aggregation_order_independent_idempotent:
  assumes "mset dir' = mset dir"
    and "\<forall>l \<in> set (session_lines dir). integer_line loads l"
  shows "(populate_context_post_run ops loads (Some dir') ctx = Inr c
            \<longleftrightarrow> populate_context_post_run ops loads (Some dir) ctx = Inr c)
       \<and> (populate_context_post_run ops loads sessions_dir ctx = Inr c
            \<longrightarrow> populate_context_post_run ops loads sessions_dir c = Inr c)"
proof -
  have 1: "populate_context_post_run ops loads (Some dir') ctx = Inr c
            \<longleftrightarrow> populate_context_post_run ops loads (Some dir) ctx = Inr c"
    using scan_lines_int_mset [OF mset_session_lines [OF assms(1)] assms(2), of ops 0 0 0]
      set_glob_mset [OF assms(1)]
    by (simp add: populate_Some zero_totals_int)
  have 2: "populate_context_post_run ops loads sessions_dir ctx = Inr c
            \<longrightarrow> populate_context_post_run ops loads sessions_dir c = Inr c"
  proof (cases sessions_dir)
    case None
    then show ?thesis by (simp add: populate_context_post_run_def)
  next
    case (Some d)
    then show ?thesis by (auto simp: populate_Some report_idem)
  qed
  from 1 2 show ?thesis by simp
qed

theorem aggregation_order_independent_idempotent_witness:
  "populate_context_post_run binary64_ops example_loads
      (Some [(''b.jsonl'', ([line_b, line_c], None)), (''a.jsonl'', ([line_a], None))])
      unset_context
     = Inr \<lparr>n_input_tokens = Some (PInt 13), n_cache_tokens = Some (PInt 1),
            n_output_tokens = Some (PInt 7)\<rparr>
   \<and> populate_context_post_run binary64_ops example_loads
      (Some [(''b.jsonl'', ([line_b, line_c], None)), (''a.jsonl'', ([line_a], None))])
      \<lparr>n_input_tokens = Some (PInt 13), n_cache_tokens = Some (PInt 1),
         n_output_tokens = Some (PInt 7)\<rparr>
     = Inr \<lparr>n_input_tokens = Some (PInt 13), n_cache_tokens = Some (PInt 1),
            n_output_tokens = Some (PInt 7)\<rparr>"
proof -
  let ?done = "\<lparr>n_input_tokens = Some (PInt 13), n_cache_tokens = Some (PInt 1),
                 n_output_tokens = Some (PInt 7)\<rparr> :: binary64 agent_context"
  let ?d = "[(''a.jsonl'', ([line_a], None)), (''b.jsonl'', ([line_b, line_c], None))]"
  let ?e = "[(''b.jsonl'', ([line_b, line_c], None)), (''a.jsonl'', ([line_a], None))]"
  have base: "populate_context_post_run binary64_ops example_loads (Some ?d) unset_context
      = Inr ?done"
    by (simp add: populate_context_post_run_def glob_jsonl_Cons jsonl_names zero_totals_def
        scan_integer_examples scan_other_role_example report_def unset_context_def)
  have perm: "mset ?e = mset ?d" by simp
  have ints: "\<forall>l \<in> set (session_lines ?d). integer_line example_loads l"
    by (simp add: session_lines_def glob_jsonl_Cons jsonl_names integer_line_def example_usages
        integer_usage_def count_of_def is_float_def)
  from aggregation_order_independent_idempotent [where dir' = "?e" and dir = "?d" and loads = example_loads
      and ops = binary64_ops and ctx = unset_context and c = "?done" and sessions_dir = "Some ?e"]
    perm base ints
  show ?thesis by simp
qed

end
